theory Spec2Isabelle
  imports Main "HOL-Library.List_Lexorder" "HOL-Library.Char_ord"
begin

section \<open>Python values used by both scripts\<close>

text \<open>
  Strings are \<^typ>\<open>string\<close>. An exception is a value; a function of the source that can
  raise returns \<open>exn + 'a\<close> with \<open>Inl\<close> for the exception.
\<close>

datatype exn = IndexError | ValueError | Exception string

text \<open>
  \<^verbatim>\<open>list(s)\<close> for a Python \<^verbatim>\<open>set\<close> lists the elements once each, in an order the language
  leaves open. The order is a parameter \<open>list_of\<close> of every function that converts a set
  to a list; \<open>set_iteration list_of\<close> says that it is such a conversion.
\<close>

definition set_iteration :: "('a set \<Rightarrow> 'a list) \<Rightarrow> bool" where
  "set_iteration list_of \<longleftrightarrow> (\<forall>S. finite S \<longrightarrow> set (list_of S) = S \<and> distinct (list_of S))"

text \<open>\<^verbatim>\<open>sub in s\<close> on strings: \<open>sub\<close> occurs in \<open>s\<close> as a contiguous block.\<close>

fun str_in :: "string \<Rightarrow> string \<Rightarrow> bool" where
  "str_in sub [] = (sub = [])"
| "str_in sub (c # cs) = (take (length sub) (c # cs) = sub \<or> str_in sub cs)"

text \<open>\<^verbatim>\<open>s.startswith(p)\<close>.\<close>

definition startswith :: "string \<Rightarrow> string \<Rightarrow> bool" where
  "startswith s p = (take (length p) s = p)"

text \<open>\<^verbatim>\<open>sep.join(xs)\<close>.\<close>

fun join :: "string \<Rightarrow> string list \<Rightarrow> string" where
  "join sep [] = []"
| "join sep [x] = x"
| "join sep (x # y # ys) = x @ sep @ join sep (y # ys)"

section \<open>email\_scraper.py: the email extractor\<close>

subsection \<open>The regular expression\<close>

text \<open>
  The character classes of
  \<^verbatim>\<open>[a-zA-Z0-9._%+-]+@[a-zA-Z0-9.-]+\.[a-zA-Z]{2,}\<close>,
  by character code.
\<close>

definition is_alpha :: "char \<Rightarrow> bool" where
  "is_alpha c = (let n = (of_char c :: nat) in (97 \<le> n \<and> n \<le> 122) \<or> (65 \<le> n \<and> n \<le> 90))"

definition is_digit :: "char \<Rightarrow> bool" where
  "is_digit c = (let n = (of_char c :: nat) in 48 \<le> n \<and> n \<le> 57)"

definition local_char :: "char \<Rightarrow> bool" where
  "local_char c = (is_alpha c \<or> is_digit c \<or> c \<in> set ''._%+-'')"

definition domain_char :: "char \<Rightarrow> bool" where
  "domain_char c = (is_alpha c \<or> is_digit c \<or> c \<in> set ''.-'')"

text \<open>
  The matcher is the backtracking one of \<^verbatim>\<open>re\<close>, in continuation style: a pattern takes
  the matcher of what follows it and the input, and returns the input left after the
  first successful way to match, or \<open>None\<close>. A greedy repetition first tries one more
  character and falls back to the continuation when that fails.
\<close>

type_synonym cont = "string \<Rightarrow> string option"

fun cls :: "(char \<Rightarrow> bool) \<Rightarrow> cont \<Rightarrow> cont" where
  "cls p k [] = None"
| "cls p k (c # cs) = (if p c then k cs else None)"

fun star :: "(char \<Rightarrow> bool) \<Rightarrow> cont \<Rightarrow> cont" where
  "star p k [] = k []"
| "star p k (c # cs) =
     (if p c then (case star p k cs of Some r \<Rightarrow> Some r | None \<Rightarrow> k (c # cs))
      else k (c # cs))"

definition plus :: "(char \<Rightarrow> bool) \<Rightarrow> cont \<Rightarrow> cont" where
  "plus p k = cls p (star p k)"

definition email_pattern :: "string \<Rightarrow> string option" where
  "email_pattern =
     plus local_char (cls ((=) CHR ''@'') (plus domain_char (cls ((=) CHR ''.'')
       (cls is_alpha (cls is_alpha (star is_alpha Some))))))"

text \<open>
  \<^verbatim>\<open>re.findall(pat, s)\<close>: the matches from left to right, each search starting where the
  previous match ended, one character further after a failure or an empty match.
\<close>

function findall :: "(string \<Rightarrow> string option) \<Rightarrow> string \<Rightarrow> string list" where
  "findall pat s =
     (case pat s of
        Some rest \<Rightarrow>
          if length rest < length s then take (length s - length rest) s # findall pat rest
          else [] # (case s of [] \<Rightarrow> [] | c # cs \<Rightarrow> findall pat cs)
      | None \<Rightarrow> (case s of [] \<Rightarrow> [] | c # cs \<Rightarrow> findall pat cs))"
  by pat_completeness auto
termination
  by (relation "measure (\<lambda>(pat, s). length s)") auto

subsection \<open>extract\_emails\<close>

text \<open>
  \<^verbatim>\<open>
  def extract_emails(html_content):
      email_pattern = r'[a-zA-Z0-9._%+-]+@[a-zA-Z0-9.-]+\.[a-zA-Z]{2,}'
      return list(set(re.findall(email_pattern, html_content)))
  \<close>
\<close>

definition extract_emails :: "(string set \<Rightarrow> string list) \<Rightarrow> string \<Rightarrow> string list" where
  "extract_emails list_of html_content = list_of (set (findall email_pattern html_content))"



text \<open>\<^verbatim>\<open>s.lower()\<close> on the letters A to Z; other characters are kept.\<close>

definition lower_char :: "char \<Rightarrow> char" where
  "lower_char c = (let n = (of_char c :: nat) in if 65 \<le> n \<and> n \<le> 90 then char_of (n + 32) else c)"

definition lower :: "string \<Rightarrow> string" where
  "lower s = map lower_char s"

text \<open>
  \<^verbatim>\<open>s.split(sep)\<close> for a separator that is not empty: \<open>s\<close> is cut at each occurrence of
  \<open>sep\<close>, found from left to right without overlap. The result always has an element.
\<close>

function split_from :: "string \<Rightarrow> string \<Rightarrow> string \<Rightarrow> string list" where
  "split_from sep cur s =
     (if s = [] then [cur]
      else if sep \<noteq> [] \<and> take (length sep) s = sep
        then cur # split_from sep [] (drop (length sep) s)
        else split_from sep (cur @ [hd s]) (tl s))"
  by pat_completeness auto
termination
  by (relation "measure (\<lambda>(sep, cur, s). length s)") auto

definition str_split :: "string \<Rightarrow> string \<Rightarrow> string list" where
  "str_split s sep = split_from sep [] s"

section \<open>email\_scraper.py: the spider\<close>

text \<open>
  The fields that \<^verbatim>\<open>EnhancedEmailSpider.__init__\<close> sets, and what \<^verbatim>\<open>parse\<close> reads of a
  response: its URL, its text, the list \<^verbatim>\<open>response.css('a::attr(href)').getall()\<close> and
  the method \<^verbatim>\<open>response.urljoin\<close>, which belongs to the framework and may raise.
\<close>

record spider =
  start_urls :: "string list"
  allowed_domains :: "string list"
  emails :: "string set"
  visited_pages :: "string set"

record response =
  resp_url :: string
  resp_text :: string
  resp_hrefs :: "string list"
  resp_urljoin :: "string \<Rightarrow> exn + string"

text \<open>
  \<^verbatim>\<open>
  def __init__(self, start_url, **kwargs):
      self.start_urls = [start_url]
      self.allowed_domains = [start_url.split("//")[-1].split("/")[0]]
      self.emails = set()
      self.visited_pages = set()
  \<close>
\<close>

definition spider_init :: "string \<Rightarrow> spider" where
  "spider_init start_url =
     \<lparr>start_urls = [start_url],
      allowed_domains = [hd (str_split (last (str_split start_url ''//'')) ''/'')],
      emails = {},
      visited_pages = {}\<rparr>"

text \<open>
  Lines 56 and 57 of \<^verbatim>\<open>parse\<close>: only a link that begins with \<^verbatim>\<open>/\<close> is joined to the URL of
  the page.
\<close>

definition resolve :: "response \<Rightarrow> string \<Rightarrow> exn + string" where
  "resolve response href = (if startswith href ''/'' then resp_urljoin response href else Inr href)"

text \<open>
  \<^verbatim>\<open>scrapy.Request(url, callback=self.parse)\<close>: the constructor of the framework refuses a
  URL without a scheme. It raises \<^verbatim>\<open>ValueError: Missing scheme in request url\<close> unless the
  URL contains \<^verbatim>\<open>://\<close> or begins with \<^verbatim>\<open>about:\<close> or \<^verbatim>\<open>data:\<close>. A request is identified
  with the URL it was built from.
\<close>

definition Request :: "string \<Rightarrow> exn + string" where
  "Request url =
     (if str_in ''://'' url \<or> startswith url ''about:'' \<or> startswith url ''data:''
      then Inr url else Inl ValueError)"

text \<open>
  The loop of \<^verbatim>\<open>parse\<close> over the anchors, lines 55 to 59. It returns the requests it
  yields, in order, and the exception that ended it, if one did: \<^verbatim>\<open>urljoin\<close> may raise,
  \<^verbatim>\<open>self.allowed_domains[0]\<close> raises IndexError on an empty list, and the constructor of
  the request may raise. The requests yielded before the exception stay yielded. The sets
  of the spider do not change inside the loop.
\<close>

fun follow_links :: "spider \<Rightarrow> response \<Rightarrow> string list \<Rightarrow> string list \<times> exn option" where
  "follow_links self response [] = ([], None)"
| "follow_links self response (href # hrefs) =
     (case resolve response href of
        Inl e \<Rightarrow> ([], Some e)
      | Inr link \<Rightarrow>
          if startswith link ''http'' then
            (case allowed_domains self of
               [] \<Rightarrow> ([], Some IndexError)
             | d # _ \<Rightarrow>
                 if str_in d link \<and> link \<notin> visited_pages self
                 then (case Request link of
                         Inl e \<Rightarrow> ([], Some e)
                       | Inr request \<Rightarrow>
                           (case follow_links self response hrefs of
                              (requests, e) \<Rightarrow> (request # requests, e)))
                 else follow_links self response hrefs)
          else follow_links self response hrefs)"

definition KEYWORDS :: "string list" where
  "KEYWORDS = [''contact'', ''about'', ''write-for-us'', ''support'']"

text \<open>
  \<^verbatim>\<open>
  def parse(self, response):
      self.visited_pages.add(response.url)
      emails = extract_emails(response.text)
      self.emails.update(emails)
      for link in response.css('a::attr(href)').getall():
          if link.startswith('/'):
              link = response.urljoin(link)
          if link.startswith('http') and self.allowed_domains[0] in link and link not in self.visited_pages:
              yield scrapy.Request(link, callback=self.parse)
      if any(keyword in response.url.lower() for keyword in ['contact', 'about', 'write-for-us', 'support']):
          emails = extract_emails(response.text)
          self.emails.update(emails)
  \<close>
  The generator is run to its end. The result is the list of requests yielded, the
  spider after the call and the exception raised, if any; an exception in the loop skips
  the keyword branch.
\<close>

definition parse :: "(string set \<Rightarrow> string list) \<Rightarrow> spider \<Rightarrow> response \<Rightarrow> string list \<times> spider \<times> exn option" where
  "parse list_of self response =
     (let self1 = self\<lparr>visited_pages := insert (resp_url response) (visited_pages self)\<rparr>;
          self2 = self1\<lparr>emails := emails self1 \<union> set (extract_emails list_of (resp_text response))\<rparr>;
          (requests, raised) = follow_links self2 response (resp_hrefs response)
      in case raised of
           Some e \<Rightarrow> (requests, self2, Some e)
         | None \<Rightarrow>
             if list_ex (\<lambda>keyword. str_in keyword (lower (resp_url response))) KEYWORDS
             then (requests,
                   self2\<lparr>emails := emails self2 \<union> set (extract_emails list_of (resp_text response))\<rparr>,
                   None)
             else (requests, self2, None))"

text \<open>
  \<^verbatim>\<open>parse\<close> without its last three lines (the keyword branch), to compare the two.
\<close>

definition parse_without_rescan :: "(string set \<Rightarrow> string list) \<Rightarrow> spider \<Rightarrow> response \<Rightarrow> string list \<times> spider \<times> exn option" where
  "parse_without_rescan list_of self response =
     (let self1 = self\<lparr>visited_pages := insert (resp_url response) (visited_pages self)\<rparr>;
          self2 = self1\<lparr>emails := emails self1 \<union> set (extract_emails list_of (resp_text response))\<rparr>;
          (requests, raised) = follow_links self2 response (resp_hrefs response)
      in (requests, self2, raised))"

text \<open>
  The callbacks of one crawl, run one after the other on the responses in the order in
  which the framework delivers them: the requests each call yields, and the spider at
  the end.
\<close>

fun parse_each :: "(string set \<Rightarrow> string list) \<Rightarrow> spider \<Rightarrow> response list \<Rightarrow> string list list \<times> spider" where
  "parse_each list_of self [] = ([], self)"
| "parse_each list_of self (response # responses) =
     (case parse list_of self response of
        (requests, self', raised) \<Rightarrow>
          (case parse_each list_of self' responses of
             (rest, self'') \<Rightarrow> (requests # rest, self'')))"

subsection \<open>Library functions at concrete inputs\<close>

text \<open>
  \<^verbatim>\<open>urllib.parse.urlparse(u).netloc\<close> for a URL written plainly: the text between the \<^verbatim>\<open>//\<close>
  that follows the scheme and the next \<^verbatim>\<open>/\<close>, \<^verbatim>\<open>?\<close> or \<^verbatim>\<open>#\<close>, and the empty string when no
  \<^verbatim>\<open>//\<close> follows the scheme. The functions of the two scripts take the library's functions
  as parameters; these two stand for them in the examples only.
\<close>

definition scheme_char :: "char \<Rightarrow> bool" where
  "scheme_char c = (is_alpha c \<or> is_digit c \<or> c \<in> set ''+-.'')"

definition after_scheme :: "string \<Rightarrow> string" where
  "after_scheme u =
     (let a = takeWhile (\<lambda>c. c \<noteq> CHR '':'') u
      in if length a < length u \<and> a \<noteq> [] \<and> is_alpha (hd a) \<and> list_all scheme_char a
         then drop (length a + 1) u else u)"

definition netloc :: "string \<Rightarrow> string" where
  "netloc u =
     (let r = after_scheme u
      in if take 2 r = ''//'' then takeWhile (\<lambda>c. c \<notin> set ''/?#'') (drop 2 r) else [])"

text \<open>
  \<^verbatim>\<open>urljoin(base, link)\<close> for the two kinds of link of the examples: a link with a scheme
  and a host of its own is returned as it is, and a link that begins with one \<^verbatim>\<open>/\<close>
  replaces the path of the base.
\<close>

definition urljoin_plain :: "string \<Rightarrow> string \<Rightarrow> string" where
  "urljoin_plain base link =
     (if netloc link \<noteq> [] then link
      else if startswith link ''/'' \<and> \<not> startswith link ''//''
        then take (length base - length (after_scheme base)) base @ ''//'' @ netloc base @ link
        else link)"

text \<open>
  The response for a page of the examples: its URL, its text and its anchors, with
  \<^verbatim>\<open>urljoin\<close> bound to the URL of the page.
\<close>

definition fetched :: "string \<Rightarrow> string \<Rightarrow> string list \<Rightarrow> response" where
  "fetched page_url page_text hrefs =
     \<lparr>resp_url = page_url, resp_text = page_text, resp_hrefs = hrefs,
      resp_urljoin = (\<lambda>link. Inr (urljoin_plain page_url link))\<rparr>"

section \<open>email\_scraper.py: scraping a batch of websites\<close>

text \<open>
  What the browser does with a URL in \<^verbatim>\<open>scrape_with_selenium\<close>: \<^verbatim>\<open>webdriver.Chrome(...)\<close>
  raises before the \<^verbatim>\<open>try\<close>, or a statement inside the \<^verbatim>\<open>try\<close> (\<^verbatim>\<open>driver.get\<close>, the
  sleep, \<^verbatim>\<open>driver.page_source\<close>) raises, or the page source is read.
\<close>

datatype selenium_outcome = LaunchFailed exn | GetFailed exn | PageSource string

text \<open>
  \<^verbatim>\<open>
  def scrape_with_selenium(url):
      ...
      driver = webdriver.Chrome(service=Service(ChromeDriverManager().install()), options=options)
      try:
          driver.get(url)
          time.sleep(3)
          html_content = driver.page_source
          emails = extract_emails(html_content)
          return emails
      except Exception as e:
          logging.error(f"Error scraping {url} with Selenium: {e}")
          return []
      finally:
          driver.quit()
  \<close>
  The browser is the parameter \<open>browse\<close>. Logging and \<^verbatim>\<open>driver.quit()\<close> leave no trace in
  the result.
\<close>

definition scrape_with_selenium :: "(string set \<Rightarrow> string list) \<Rightarrow> (string \<Rightarrow> selenium_outcome) \<Rightarrow> string \<Rightarrow> exn + string list" where
  "scrape_with_selenium list_of browse url =
     (case browse url of
        LaunchFailed e \<Rightarrow> Inl e
      | GetFailed e \<Rightarrow> Inr []
      | PageSource html_content \<Rightarrow> Inr (extract_emails list_of html_content))"

text \<open>
  \<^verbatim>\<open>
  def scrape_with_hybrid(url, use_selenium):
      if use_selenium:
          return scrape_with_selenium(url)
      else:
          return run_scrapy_for_website(url)
  \<close>
  \<^verbatim>\<open>run_scrapy_for_website\<close> starts a crawler process of the framework and returns what
  the run collected, or raises; it is the parameter \<open>run_scrapy_for_website\<close>.
\<close>

definition scrape_with_hybrid :: "(string set \<Rightarrow> string list) \<Rightarrow> (string \<Rightarrow> selenium_outcome) \<Rightarrow> (string \<Rightarrow> exn + string list) \<Rightarrow> string \<Rightarrow> bool \<Rightarrow> exn + string list" where
  "scrape_with_hybrid list_of browse run_scrapy_for_website url use_selenium =
     (if use_selenium then scrape_with_selenium list_of browse url
      else run_scrapy_for_website url)"

text \<open>
  A row of the result: \<^verbatim>\<open>{"Website": ..., "Emails": ..., "Time Taken (s)": ...}\<close>. The
  time is a number or the string \<^verbatim>\<open>"N/A"\<close>.
\<close>

datatype 't time_taken = Seconds 't | NA

record 't row =
  Website :: string
  Emails :: string
  Time_Taken :: "'t time_taken"

text \<open>
  \<^verbatim>\<open>
  def scrape_multiple_websites(urls, use_selenium):
      results = []
      for url in tqdm(urls, desc="Scraping websites"):
          start_time = time.time()
          try:
              emails = scrape_with_hybrid(url, use_selenium)
              elapsed_time = time.time() - start_time
              result = {"Website": url, "Emails": ", ".join(emails),
                        "Time Taken (s)": round(elapsed_time, 2)}
              results.append(result)
          except Exception as e:
              logging.error(f"Failed to scrape {url}: {e}")
              results.append({"Website": url, "Emails": "Error scraping website",
                              "Time Taken (s)": "N/A"})
      return results
  \<close>
  The jobs run one after the other. The world may answer the \<open>i\<close>-th job differently from
  the others, so the browser, the crawler process and the clock take the number of the
  job: \<open>elapsed i\<close> is the value of \<^verbatim>\<open>round(elapsed_time, 2)\<close> measured for job \<open>i\<close>.
\<close>

fun scrape_loop :: "(nat \<Rightarrow> string \<Rightarrow> exn + string list) \<Rightarrow> (nat \<Rightarrow> 't) \<Rightarrow> nat \<Rightarrow> string list \<Rightarrow> 't row list \<Rightarrow> 't row list" where
  "scrape_loop scrape elapsed i [] results = results"
| "scrape_loop scrape elapsed i (url # urls) results =
     scrape_loop scrape elapsed (Suc i) urls
       (results @
         [case scrape i url of
            Inr found \<Rightarrow>
              \<lparr>Website = url, Emails = join '', '' found, Time_Taken = Seconds (elapsed i)\<rparr>
          | Inl e \<Rightarrow>
              \<lparr>Website = url, Emails = ''Error scraping website'', Time_Taken = NA\<rparr>])"

definition scrape_multiple_websites :: "(string set \<Rightarrow> string list) \<Rightarrow> (nat \<Rightarrow> string \<Rightarrow> selenium_outcome) \<Rightarrow> (nat \<Rightarrow> string \<Rightarrow> exn + string list) \<Rightarrow> (nat \<Rightarrow> 't) \<Rightarrow> string list \<Rightarrow> bool \<Rightarrow> 't row list" where
  "scrape_multiple_websites list_of browse run_scrapy_for_website elapsed urls use_selenium =
     scrape_loop
       (\<lambda>i url. scrape_with_hybrid list_of (browse i) (run_scrapy_for_website i) url use_selenium)
       elapsed 0 urls []"

section \<open>linkdin.py: the outgoing links of a page\<close>

text \<open>\<^verbatim>\<open>s.replace(old, new)\<close> for an \<open>old\<close> that is not empty: every occurrence, from the left.\<close>

function str_replace :: "string \<Rightarrow> string \<Rightarrow> string \<Rightarrow> string" where
  "str_replace s old new =
     (if s = [] then []
      else if old \<noteq> [] \<and> take (length old) s = old
        then new @ str_replace (drop (length old) s) old new
        else hd s # str_replace (tl s) old new)"
  by pat_completeness auto
termination
  by (relation "measure (\<lambda>(s, old, new). length s)") auto

declare str_replace.simps [simp del]

definition EXCLUDED_WEBSITES :: "string list" where
  "EXCLUDED_WEBSITES =
     [''facebook.com'', ''instagram.com'', ''twitter.com'', ''youtube.com'', ''linkedin.com'',
      ''forbes.com'', ''amazon.com'', ''pinterest.com'', ''imdb.com'', ''indeed.com'', ''moz.com'',
      ''quora.com'', ''semrush.com'', ''google.com'', ''google.org'', ''bbc.co.uk'', ''.gov'']"

definition EXCLUDED_PATTERNS :: "string list" where
  "EXCLUDED_PATTERNS = [''#'', ''/contact'', ''/privacy'', ''/terms'']"

text \<open>
  The loop of \<^verbatim>\<open>extract_links_from_page\<close> over the anchors, lines 48 to 60:
  \<^verbatim>\<open>
  for link in anchor_tags:
      full_url = urljoin(url, link)
      parsed_link = urlparse(full_url)
      domain = parsed_link.netloc.replace('www.', '')
      if (domain and main_domain not in domain
          and not any(excluded in domain for excluded in EXCLUDED_WEBSITES)
          and not any(pattern in full_url for pattern in EXCLUDED_PATTERNS)):
          outgoing_links.add(f"https://{domain}/")
  \<close>
  \<^verbatim>\<open>urljoin\<close> and \<^verbatim>\<open>urlparse(...).netloc\<close> are the library's and are parameters; each may
  raise ValueError, which leaves the loop with the set built so far.
\<close>

fun add_links :: "(string \<Rightarrow> string \<Rightarrow> exn + string) \<Rightarrow> (string \<Rightarrow> exn + string) \<Rightarrow> string \<Rightarrow> string \<Rightarrow> string list \<Rightarrow> string set \<Rightarrow> string set" where
  "add_links urljoin netloc_of url main_domain [] outgoing_links = outgoing_links"
| "add_links urljoin netloc_of url main_domain (link # anchor_tags) outgoing_links =
     (case urljoin url link of
        Inl e \<Rightarrow> outgoing_links
      | Inr full_url \<Rightarrow>
          (case netloc_of full_url of
             Inl e \<Rightarrow> outgoing_links
           | Inr n \<Rightarrow>
               (let domain = str_replace n ''www.'' []
                in add_links urljoin netloc_of url main_domain anchor_tags
                     (if domain \<noteq> [] \<and> \<not> str_in main_domain domain
                         \<and> \<not> list_ex (\<lambda>excluded. str_in excluded domain) EXCLUDED_WEBSITES
                         \<and> \<not> list_ex (\<lambda>pattern. str_in pattern full_url) EXCLUDED_PATTERNS
                      then insert (''https://'' @ domain @ ''/'') outgoing_links
                      else outgoing_links))))"

text \<open>
  \<^verbatim>\<open>
  def extract_links_from_page(url):
      outgoing_links = set()
      driver = None
      try:
          driver = init_driver()
          driver.get(url)
          time.sleep(3)
          page_source = driver.page_source
          selector = Selector(text=page_source)
          anchor_tags = selector.css('a::attr(href)').getall()
          parsed_url = urlparse(url)
          main_domain = parsed_url.netloc.replace('www.', '')
          for link in anchor_tags: ...
      except Exception as e:
          st.warning(f"Error processing {url}: {e}")
      finally:
          if driver:
              driver.quit()
      return list(outgoing_links)
  \<close>
  \<open>load url\<close> is the list of anchors that the browser finds on the page, or the exception
  raised on the way to it.
\<close>

definition extract_links_from_page :: "(string set \<Rightarrow> string list) \<Rightarrow> (string \<Rightarrow> exn + string list) \<Rightarrow> (string \<Rightarrow> string \<Rightarrow> exn + string) \<Rightarrow> (string \<Rightarrow> exn + string) \<Rightarrow> string \<Rightarrow> string list" where
  "extract_links_from_page list_of load urljoin netloc_of url =
     list_of
       (case load url of
          Inl e \<Rightarrow> {}
        | Inr anchor_tags \<Rightarrow>
            (case netloc_of url of
               Inl e \<Rightarrow> {}
             | Inr n \<Rightarrow>
                 add_links urljoin netloc_of url (str_replace n ''www.'' []) anchor_tags {}))"

text \<open>
  The domain of a link in the words of the specification: the host with a leading
  \<^verbatim>\<open>www.\<close> stripped.
\<close>

definition strip_leading_www :: "string \<Rightarrow> string" where
  "strip_leading_www host = (if startswith host ''www.'' then drop 4 host else host)"

section \<open>linkdin.py: processing the URLs on a thread pool\<close>

text \<open>
  A Python \<^verbatim>\<open>dict\<close> keeps its keys in the order of their first insertion; assigning to a key
  that is present replaces the value in place.
\<close>

fun dict_set :: "('k \<times> 'v) list \<Rightarrow> 'k \<Rightarrow> 'v \<Rightarrow> ('k \<times> 'v) list" where
  "dict_set [] k v = [(k, v)]"
| "dict_set ((k', v') # d) k v = (if k' = k then (k, v) # d else (k', v') # dict_set d k v)"

text \<open>
  The executor: one future per submitted URL, empty until its job completes. The jobs
  complete in the order \<open>completion\<close> (a list of job numbers), whatever that order is;
  \<open>job i url\<close> is what job \<open>i\<close> returns or raises.
\<close>

definition run_jobs :: "(nat \<Rightarrow> string \<Rightarrow> exn + string list) \<Rightarrow> string list \<Rightarrow> nat list \<Rightarrow> (exn + string list) option list" where
  "run_jobs job urls completion =
     fold (\<lambda>i futures. if i < length futures then futures[i := Some (job i (urls ! i))] else futures)
       completion (replicate (length urls) None)"

text \<open>
  The loop over the futures in the order of submission, lines 74 to 79.
  \<^verbatim>\<open>future.result()\<close> waits for the job; on a future that never completes the call does
  not return, which is the result \<open>None\<close>.
\<close>

fun collect_results :: "(string \<times> (exn + string list) option) list \<Rightarrow> (string \<times> string list) list \<Rightarrow> (string \<times> string list) list option" where
  "collect_results [] all_outgoing_links = Some all_outgoing_links"
| "collect_results ((url, None) # futures) all_outgoing_links = None"
| "collect_results ((url, Some (Inl e)) # futures) all_outgoing_links =
     collect_results futures all_outgoing_links"
| "collect_results ((url, Some (Inr links)) # futures) all_outgoing_links =
     collect_results futures (dict_set all_outgoing_links url links)"

text \<open>
  \<^verbatim>\<open>
  def process_urls_concurrently(urls):
      all_outgoing_links = {}
      with ThreadPoolExecutor(max_workers=5) as executor:
          future_to_url = {executor.submit(extract_links_from_page, url): url for url in urls}
          for future in future_to_url:
              url = future_to_url[future]
              try:
                  all_outgoing_links[url] = future.result()
              except Exception as e:
                  st.warning(f"Error processing {url}: {e}")
      return all_outgoing_links
  \<close>
\<close>

definition process_urls_concurrently :: "(nat \<Rightarrow> string \<Rightarrow> exn + string list) \<Rightarrow> nat list \<Rightarrow> string list \<Rightarrow> (string \<times> string list) list option" where
  "process_urls_concurrently job completion urls =
     collect_results (zip urls (run_jobs job urls completion)) []"

text \<open>
  Lines 159 to 171 of \<^verbatim>\<open>main\<close>: the URLs gathered from the upload and the text area go
  through a set before the jobs are submitted.
  \<^verbatim>\<open>
  urls = list(set(urls))
  ...
  results = process_urls_concurrently(urls)
  \<close>
\<close>

definition main_results :: "(string set \<Rightarrow> string list) \<Rightarrow> (nat \<Rightarrow> string \<Rightarrow> exn + string list) \<Rightarrow> nat list \<Rightarrow> string list \<Rightarrow> (string \<times> string list) list option" where
  "main_results list_of job completion urls =
     process_urls_concurrently job completion (list_of (set urls))"

section \<open>Properties of the strings and of the matcher\<close>

lemma set_iteration_sorted: "set_iteration (sorted_list_of_set :: string set \<Rightarrow> string list)"
  by (simp add: set_iteration_def)

lemma set_iteration_empty: "set_iteration list_of \<Longrightarrow> list_of {} = []"
proof -
  assume "set_iteration list_of"
  then have "set (list_of {}) = {}"
    unfolding set_iteration_def by (metis finite.emptyI)
  then show ?thesis by simp
qed

lemma str_in_iff: "str_in sub s \<longleftrightarrow> (\<exists>p q. s = p @ sub @ q)"
proof (induction s)
  case Nil
  then show ?case by auto
next
  case (Cons c cs)
  have "take (length sub) (c # cs) = sub \<longleftrightarrow> (\<exists>q. c # cs = sub @ q)"
    by (metis append_eq_conv_conj append_take_drop_id)
  moreover have "(\<exists>p q. c # cs = p @ sub @ q) \<longleftrightarrow>
      (\<exists>q. c # cs = sub @ q) \<or> (\<exists>p q. cs = p @ sub @ q)"
  proof
    assume "\<exists>p q. c # cs = p @ sub @ q"
    then obtain p q where pq: "c # cs = p @ sub @ q" by blast
    show "(\<exists>q. c # cs = sub @ q) \<or> (\<exists>p q. cs = p @ sub @ q)"
    proof (cases p)
      case Nil
      with pq show ?thesis by auto
    next
      case (Cons x p')
      with pq have "cs = p' @ sub @ q" by simp
      then show ?thesis by blast
    qed
  next
    assume "(\<exists>q. c # cs = sub @ q) \<or> (\<exists>p q. cs = p @ sub @ q)"
    then show "\<exists>p q. c # cs = p @ sub @ q"
    proof
      assume "\<exists>q. c # cs = sub @ q"
      then obtain q where "c # cs = [] @ sub @ q" by auto
      then show ?thesis by blast
    next
      assume "\<exists>p q. cs = p @ sub @ q"
      then obtain p q where "c # cs = (c # p) @ sub @ q" by auto
      then show ?thesis by blast
    qed
  qed
  ultimately show ?case using Cons.IH by simp
qed

lemma str_in_refl: "str_in s s"
  unfolding str_in_iff by (metis append_Nil append_Nil2)









lemma set_iteration_rev_sorted:
  "set_iteration (\<lambda>S. rev (sorted_list_of_set S) :: string list)"
  by (simp add: set_iteration_def)

lemma set_extract_emails:
  "set_iteration list_of \<Longrightarrow> set (extract_emails list_of s) = set (findall email_pattern s)"
  by (simp add: extract_emails_def set_iteration_def)

lemma distinct_extract_emails:
  "set_iteration list_of \<Longrightarrow> distinct (extract_emails list_of s)"
  by (simp add: extract_emails_def set_iteration_def)



















subsection \<open>The email extractor\<close>

text \<open>
  C6: extract_emails is idempotent and its result has no duplicates. Two runs on the same
  content return the same set of strings, whatever order each run lists its set in; the
  list returned holds no string twice; and adding the result of a second run to a set
  that already received the result of the first changes nothing.
\<close>

theorem extract_emails_idempotent:
  "set_iteration list_of \<Longrightarrow> set_iteration list_of' \<Longrightarrow>
   set (extract_emails list_of' content) = set (extract_emails list_of content) \<and>
   distinct (extract_emails list_of content) \<and>
   (acc \<union> set (extract_emails list_of content)) \<union> set (extract_emails list_of' content) =
     acc \<union> set (extract_emails list_of content)"
  by (auto simp: set_extract_emails distinct_extract_emails)

theorem extract_emails_idempotent_witness:
  "set_iteration (sorted_list_of_set :: string set \<Rightarrow> string list) \<and>
   set_iteration (\<lambda>S. rev (sorted_list_of_set S) :: string list) \<and>
   extract_emails sorted_list_of_set ''b@y.org, a@x.org; b@y.org'' = [''a@x.org'', ''b@y.org''] \<and>
   extract_emails (\<lambda>S. rev (sorted_list_of_set S)) ''b@y.org, a@x.org; b@y.org'' =
     [''b@y.org'', ''a@x.org''] \<and>
   set (extract_emails (\<lambda>S. rev (sorted_list_of_set S)) ''b@y.org, a@x.org; b@y.org'') =
     set (extract_emails sorted_list_of_set ''b@y.org, a@x.org; b@y.org'') \<and>
   distinct (extract_emails sorted_list_of_set ''b@y.org, a@x.org; b@y.org'') \<and>
   ({''c@z.org''} \<union> set (extract_emails sorted_list_of_set ''b@y.org, a@x.org; b@y.org''))
      \<union> set (extract_emails (\<lambda>S. rev (sorted_list_of_set S)) ''b@y.org, a@x.org; b@y.org'') =
     {''c@z.org''} \<union> set (extract_emails sorted_list_of_set ''b@y.org, a@x.org; b@y.org'')"
proof -
  have 1: "extract_emails sorted_list_of_set ''b@y.org, a@x.org; b@y.org'' = [''a@x.org'', ''b@y.org'']"
    by code_simp
  have 2: "extract_emails (\<lambda>S. rev (sorted_list_of_set S)) ''b@y.org, a@x.org; b@y.org'' =
     [''b@y.org'', ''a@x.org'']"
    by code_simp
  show ?thesis
    using extract_emails_idempotent [OF set_iteration_sorted set_iteration_rev_sorted,
        of "''b@y.org, a@x.org; b@y.org''" "{''c@z.org''}"]
      set_iteration_sorted set_iteration_rev_sorted 1 2
    by simp
qed




subsection \<open>The spider\<close>

text \<open>
  C2: parse accepts a link of another domain. The spider started at
  \<^verbatim>\<open>https://example.com/\<close> has the allowed domain \<^verbatim>\<open>example.com\<close>. On the page
  \<^verbatim>\<open>https://example.com/\<close> with the anchors \<^verbatim>\<open>https://evil.org/?ref=example.com\<close> and
  \<^verbatim>\<open>about.html\<close>, parse yields a request for the first, whose host is \<^verbatim>\<open>evil.org\<close>: line 58
  looks for the allowed domain anywhere in the link, where the comment on line 54 speaks of
  internal links. It yields none for the second, a link within the site that line 56 does
  not join to the URL of the page.
\<close>

theorem parse_accepts_other_domain:
  "allowed_domains (spider_init ''https://example.com/'') = [''example.com''] \<and>
   netloc ''https://evil.org/?ref=example.com'' = ''evil.org'' \<and>
   parse sorted_list_of_set (spider_init ''https://example.com/'')
     (fetched ''https://example.com/'' [] [''https://evil.org/?ref=example.com'', ''about.html'']) =
     ([''https://evil.org/?ref=example.com''],
      \<lparr>start_urls = [''https://example.com/''], allowed_domains = [''example.com''], emails = {},
       visited_pages = {''https://example.com/''}\<rparr>, None)"
  by code_simp

text \<open>
  C9: on a page whose URL, in lower case, contains one of the keywords, the second
  scan of the keyword branch changes nothing: parse returns the same requests and the
  same spider, with the same set of emails, as parse without that branch.
\<close>

theorem keyword_rescan_redundant:
  "list_ex (\<lambda>keyword. str_in keyword (lower (resp_url response))) KEYWORDS \<Longrightarrow>
   parse list_of self response = parse_without_rescan list_of self response"
  by (simp add: parse_def parse_without_rescan_def Let_def Un_assoc
      split: prod.splits option.splits)

theorem keyword_rescan_redundant_witness:
  "list_ex (\<lambda>keyword. str_in keyword (lower (resp_url
       (fetched ''https://example.com/Contact-Us'' ''Mail info@example.com'' [])))) KEYWORDS \<and>
   parse sorted_list_of_set (spider_init ''https://example.com/'')
       (fetched ''https://example.com/Contact-Us'' ''Mail info@example.com'' []) =
     parse_without_rescan sorted_list_of_set (spider_init ''https://example.com/'')
       (fetched ''https://example.com/Contact-Us'' ''Mail info@example.com'' []) \<and>
   emails (fst (snd (parse sorted_list_of_set (spider_init ''https://example.com/'')
       (fetched ''https://example.com/Contact-Us'' ''Mail info@example.com'' [])))) =
     {''info@example.com''}"
proof -
  have 1: "list_ex (\<lambda>keyword. str_in keyword (lower (resp_url
       (fetched ''https://example.com/Contact-Us'' ''Mail info@example.com'' [])))) KEYWORDS"
    by code_simp
  have 2: "emails (fst (snd (parse sorted_list_of_set (spider_init ''https://example.com/'')
       (fetched ''https://example.com/Contact-Us'' ''Mail info@example.com'' [])))) =
     {''info@example.com''}"
    by code_simp
  from 1 keyword_rescan_redundant [OF 1] 2 show ?thesis by (intro conjI)
qed

section \<open>Properties of the outgoing-link extractor\<close>

lemma add_links_elem:
  "e \<in> add_links urljoin netloc_of url main_domain anchor_tags outgoing_links \<Longrightarrow>
   e \<in> outgoing_links \<or>
   (\<exists>link\<in>set anchor_tags. \<exists>full_url n.
      urljoin url link = Inr full_url \<and> netloc_of full_url = Inr n \<and>
      e = ''https://'' @ str_replace n ''www.'' [] @ ''/'' \<and>
      str_replace n ''www.'' [] \<noteq> [] \<and>
      \<not> str_in main_domain (str_replace n ''www.'' []) \<and>
      \<not> list_ex (\<lambda>excluded. str_in excluded (str_replace n ''www.'' [])) EXCLUDED_WEBSITES \<and>
      \<not> list_ex (\<lambda>pattern. str_in pattern full_url) EXCLUDED_PATTERNS)"
proof (induction anchor_tags arbitrary: outgoing_links)
  case Nil
  then show ?case by simp
next
  case (Cons link anchor_tags)
  show ?case
  proof (cases "urljoin url link")
    case (Inl x)
    with Cons.prems show ?thesis by simp
  next
    case (Inr full_url)
    show ?thesis
    proof (cases "netloc_of full_url")
      case (Inl x)
      with Inr Cons.prems show ?thesis by simp
    next
      case n: (Inr n)
      let ?D = "str_replace n ''www.'' []"
      let ?ok = "?D \<noteq> [] \<and> \<not> str_in main_domain ?D
          \<and> \<not> list_ex (\<lambda>excluded. str_in excluded ?D) EXCLUDED_WEBSITES
          \<and> \<not> list_ex (\<lambda>pattern. str_in pattern full_url) EXCLUDED_PATTERNS"
      let ?out = "if ?ok then insert (''https://'' @ ?D @ ''/'') outgoing_links else outgoing_links"
      from Cons.prems Inr n
      have "e \<in> add_links urljoin netloc_of url main_domain anchor_tags ?out"
        by (simp add: Let_def)
      from Cons.IH [OF this] show ?thesis
      proof
        assume "e \<in> ?out"
        then have "e \<in> outgoing_links \<or> (?ok \<and> e = ''https://'' @ ?D @ ''/'')"
          by (auto split: if_splits)
        then show ?thesis
        proof
          assume "e \<in> outgoing_links" then show ?thesis by simp
        next
          assume "?ok \<and> e = ''https://'' @ ?D @ ''/''"
          with Inr n have "\<exists>full_url n.
              urljoin url link = Inr full_url \<and> netloc_of full_url = Inr n \<and>
              e = ''https://'' @ str_replace n ''www.'' [] @ ''/'' \<and>
              str_replace n ''www.'' [] \<noteq> [] \<and>
              \<not> str_in main_domain (str_replace n ''www.'' []) \<and>
              \<not> list_ex (\<lambda>excluded. str_in excluded (str_replace n ''www.'' [])) EXCLUDED_WEBSITES \<and>
              \<not> list_ex (\<lambda>pattern. str_in pattern full_url) EXCLUDED_PATTERNS"
            by blast
          then show ?thesis by simp
        qed
      next
        assume "\<exists>link\<in>set anchor_tags. \<exists>full_url n.
          urljoin url link = Inr full_url \<and> netloc_of full_url = Inr n \<and>
          e = ''https://'' @ str_replace n ''www.'' [] @ ''/'' \<and>
          str_replace n ''www.'' [] \<noteq> [] \<and>
          \<not> str_in main_domain (str_replace n ''www.'' []) \<and>
          \<not> list_ex (\<lambda>excluded. str_in excluded (str_replace n ''www.'' [])) EXCLUDED_WEBSITES \<and>
          \<not> list_ex (\<lambda>pattern. str_in pattern full_url) EXCLUDED_PATTERNS"
        then show ?thesis by auto
      qed
    qed
  qed
qed

lemma add_links_finite:
  "finite outgoing_links \<Longrightarrow>
   finite (add_links urljoin netloc_of url main_domain anchor_tags outgoing_links)"
  by (induction anchor_tags arbitrary: outgoing_links) (auto simp: Let_def split: sum.splits)


lemma extract_links_elem:
  assumes "set_iteration list_of"
    and "e \<in> set (extract_links_from_page list_of load urljoin netloc_of url)"
  shows "\<exists>anchor_tags host. load url = Inr anchor_tags \<and> netloc_of url = Inr host \<and>
    (\<exists>link\<in>set anchor_tags. \<exists>full_url n.
      urljoin url link = Inr full_url \<and> netloc_of full_url = Inr n \<and>
      e = ''https://'' @ str_replace n ''www.'' [] @ ''/'' \<and>
      str_replace n ''www.'' [] \<noteq> [] \<and>
      \<not> str_in (str_replace host ''www.'' []) (str_replace n ''www.'' []) \<and>
      \<not> list_ex (\<lambda>excluded. str_in excluded (str_replace n ''www.'' [])) EXCLUDED_WEBSITES \<and>
      \<not> list_ex (\<lambda>pattern. str_in pattern full_url) EXCLUDED_PATTERNS)"
proof -
  let ?S = "case load url of
          Inl e \<Rightarrow> {}
        | Inr anchor_tags \<Rightarrow>
            (case netloc_of url of
               Inl e \<Rightarrow> {}
             | Inr n \<Rightarrow>
                 add_links urljoin netloc_of url (str_replace n ''www.'' []) anchor_tags {})"
  have fin: "finite ?S"
    by (auto split: sum.splits intro: add_links_finite)
  with assms(1) have "set (list_of ?S) = ?S"
    unfolding set_iteration_def by blast
  with assms(2) have e: "e \<in> ?S"
    by (simp add: extract_links_from_page_def)
  then obtain anchor_tags where a: "load url = Inr anchor_tags"
    by (cases "load url") auto
  with e obtain host where h: "netloc_of url = Inr host"
    by (cases "netloc_of url") auto
  with a e have "e \<in> add_links urljoin netloc_of url (str_replace host ''www.'' []) anchor_tags {}"
    by simp
  from add_links_elem [OF this] a h show ?thesis by simp
qed

lemma extract_links_distinct:
  assumes "set_iteration list_of"
  shows "distinct (extract_links_from_page list_of load urljoin netloc_of url)"
proof -
  let ?S = "case load url of
          Inl e \<Rightarrow> {}
        | Inr anchor_tags \<Rightarrow>
            (case netloc_of url of
               Inl e \<Rightarrow> {}
             | Inr n \<Rightarrow>
                 add_links urljoin netloc_of url (str_replace n ''www.'' []) anchor_tags {})"
  have fin: "finite ?S"
    by (auto split: sum.splits intro: add_links_finite)
  with assms(1) have "distinct (list_of ?S)"
    unfolding set_iteration_def by blast
  then show ?thesis by (simp add: extract_links_from_page_def)
qed

text \<open>
  C10: in the outgoing-link extractor exclusion is by substring. Whatever the anchors of
  the page are, the result has no entry for a domain that contains an entry of the
  exclusion list as a substring, and none for a domain that contains the page's own domain
  (the host of the page without \<^verbatim>\<open>www.\<close>) as a substring; in particular it has no entry for a
  subdomain of the page's own domain.
\<close>

theorem exclusion_by_substring:
  assumes "set_iteration list_of"
  shows "(list_ex (\<lambda>excluded. str_in excluded domain) EXCLUDED_WEBSITES \<longrightarrow>
            ''https://'' @ domain @ ''/'' \<notin>
              set (extract_links_from_page list_of load urljoin netloc_of url)) \<and>
         (netloc_of url = Inr host \<and> str_in (str_replace host ''www.'' []) domain \<longrightarrow>
            ''https://'' @ domain @ ''/'' \<notin>
              set (extract_links_from_page list_of load urljoin netloc_of url)) \<and>
         (netloc_of url = Inr host \<longrightarrow>
            ''https://'' @ (sub @ ''.'' @ str_replace host ''www.'' []) @ ''/'' \<notin>
              set (extract_links_from_page list_of load urljoin netloc_of url))"
proof -
  let ?result = "extract_links_from_page list_of load urljoin netloc_of url"
  have inj: "\<And>a b. ''https://'' @ a @ ''/'' = ''https://'' @ b @ ''/'' \<Longrightarrow> a = b"
    by simp
  have listed: "''https://'' @ D @ ''/'' \<notin> set ?result"
    if "list_ex (\<lambda>excluded. str_in excluded D) EXCLUDED_WEBSITES" for D
  proof
    assume "''https://'' @ D @ ''/'' \<in> set ?result"
    from extract_links_elem [OF assms this] obtain n where
      "''https://'' @ D @ ''/'' = ''https://'' @ str_replace n ''www.'' [] @ ''/''"
      "\<not> list_ex (\<lambda>excluded. str_in excluded (str_replace n ''www.'' [])) EXCLUDED_WEBSITES"
      by blast
    with inj that show False by metis
  qed
  have own: "''https://'' @ D @ ''/'' \<notin> set ?result"
    if "netloc_of url = Inr host" "str_in (str_replace host ''www.'' []) D" for D
  proof
    assume "''https://'' @ D @ ''/'' \<in> set ?result"
    from extract_links_elem [OF assms this] that(1) obtain n where
      "''https://'' @ D @ ''/'' = ''https://'' @ str_replace n ''www.'' [] @ ''/''"
      "\<not> str_in (str_replace host ''www.'' []) (str_replace n ''www.'' [])"
      by auto
    with inj that(2) show False by metis
  qed
  have "str_in (str_replace host ''www.'' []) (sub @ ''.'' @ str_replace host ''www.'' [])"
    unfolding str_in_iff by (metis append.assoc append_Nil2)
  with listed own show ?thesis by blast
qed

theorem exclusion_by_substring_witness:
  "set_iteration (sorted_list_of_set :: string set \<Rightarrow> string list) \<and>
   extract_links_from_page sorted_list_of_set
     (\<lambda>u. Inr [''https://blog.example.com/x'', ''https://notexample.com/'',
                ''https://m.facebook.com/p'', ''https://partner.org/a''])
     (\<lambda>b l. Inr (urljoin_plain b l)) (\<lambda>u. Inr (netloc u)) ''https://www.example.com/'' =
     [''https://partner.org/''] \<and>
   list_ex (\<lambda>excluded. str_in excluded ''m.facebook.com'') EXCLUDED_WEBSITES \<and>
   ''https://'' @ ''m.facebook.com'' @ ''/'' \<notin> set (extract_links_from_page sorted_list_of_set
     (\<lambda>u. Inr [''https://blog.example.com/x'', ''https://notexample.com/'',
                ''https://m.facebook.com/p'', ''https://partner.org/a''])
     (\<lambda>b l. Inr (urljoin_plain b l)) (\<lambda>u. Inr (netloc u)) ''https://www.example.com/'') \<and>
   str_in (str_replace ''www.example.com'' ''www.'' []) ''notexample.com'' \<and>
   ''https://'' @ ''notexample.com'' @ ''/'' \<notin> set (extract_links_from_page sorted_list_of_set
     (\<lambda>u. Inr [''https://blog.example.com/x'', ''https://notexample.com/'',
                ''https://m.facebook.com/p'', ''https://partner.org/a''])
     (\<lambda>b l. Inr (urljoin_plain b l)) (\<lambda>u. Inr (netloc u)) ''https://www.example.com/'') \<and>
   ''https://'' @ (''blog'' @ ''.'' @ str_replace ''www.example.com'' ''www.'' []) @ ''/'' \<notin>
     set (extract_links_from_page sorted_list_of_set
     (\<lambda>u. Inr [''https://blog.example.com/x'', ''https://notexample.com/'',
                ''https://m.facebook.com/p'', ''https://partner.org/a''])
     (\<lambda>b l. Inr (urljoin_plain b l)) (\<lambda>u. Inr (netloc u)) ''https://www.example.com/'')"
proof -
  let ?load = "\<lambda>u :: string. (Inr [''https://blog.example.com/x'', ''https://notexample.com/'',
                ''https://m.facebook.com/p'', ''https://partner.org/a''] :: exn + string list)"
  let ?uj = "\<lambda>b l. (Inr (urljoin_plain b l) :: exn + string)"
  let ?nl = "\<lambda>u. (Inr (netloc u) :: exn + string)"
  let ?result = "extract_links_from_page sorted_list_of_set ?load ?uj ?nl ''https://www.example.com/''"
  have 1: "?result = [''https://partner.org/'']"
    by code_simp
  have 2: "list_ex (\<lambda>excluded. str_in excluded ''m.facebook.com'') EXCLUDED_WEBSITES"
    by code_simp
  have 3: "str_in (str_replace ''www.example.com'' ''www.'' []) ''notexample.com''"
    by code_simp
  have 4: "?nl ''https://www.example.com/'' = Inr ''www.example.com''"
    by code_simp
  note t = exclusion_by_substring [OF set_iteration_sorted, of _ ?load ?uj ?nl "''https://www.example.com/''" "''www.example.com''"]
  from t [of "''m.facebook.com''" "[]"] 2
  have 5: "''https://'' @ ''m.facebook.com'' @ ''/'' \<notin> set ?result" by blast
  from t [of "''notexample.com''" "[]"] 3 4
  have 6: "''https://'' @ ''notexample.com'' @ ''/'' \<notin> set ?result" by blast
  from t [of "[]" "''blog''"] 4
  have 7: "''https://'' @ (''blog'' @ ''.'' @ str_replace ''www.example.com'' ''www.'' []) @ ''/'' \<notin>
     set ?result" by blast
  from set_iteration_sorted 1 2 5 3 6 7 show ?thesis by (intro conjI)
qed

text \<open>
  C3: the extractor removes every \<^verbatim>\<open>www.\<close> of a host, not only a leading one. On the page
  \<^verbatim>\<open>https://example.com/\<close> with the one anchor \<^verbatim>\<open>https://shop.www.example.org/sale\<close> the
  host of the link is \<^verbatim>\<open>shop.www.example.org\<close>, which has no leading \<^verbatim>\<open>www.\<close>, and the
  entry recorded is \<^verbatim>\<open>https://shop.example.org/\<close>, for a host the page does not link to.
\<close>

theorem inner_www_removed:
  "extract_links_from_page sorted_list_of_set (\<lambda>u. Inr [''https://shop.www.example.org/sale''])
     (\<lambda>b l. Inr (urljoin_plain b l)) (\<lambda>u. Inr (netloc u)) ''https://example.com/'' =
     [''https://shop.example.org/''] \<and>
   netloc (urljoin_plain ''https://example.com/'' ''https://shop.www.example.org/sale'') =
     ''shop.www.example.org'' \<and>
   strip_leading_www ''shop.www.example.org'' = ''shop.www.example.org''"
  by code_simp

section \<open>Properties of the batch loop and of the thread pool\<close>

lemma scrape_loop_rows:
  "scrape_loop scrape elapsed i urls results =
     results @ map (\<lambda>(j, url).
         case scrape j url of
           Inr found \<Rightarrow> \<lparr>Website = url, Emails = join '', '' found, Time_Taken = Seconds (elapsed j)\<rparr>
         | Inl e \<Rightarrow> \<lparr>Website = url, Emails = ''Error scraping website'', Time_Taken = NA\<rparr>)
       (zip [i..<i + length urls] urls)"
proof (induction urls arbitrary: i results)
  case Nil
  then show ?case by simp
next
  case (Cons url urls)
  have "[i..<i + length (url # urls)] = i # [Suc i..<Suc i + length urls]"
    by (subst upt_rec) simp
  then show ?case by (simp add: Cons.IH)
qed

lemma scrape_loop_length:
  "length (scrape_loop scrape elapsed i urls results) = length results + length urls"
  by (simp add: scrape_loop_rows)

lemma scrape_loop_nth:
  assumes "k < length urls"
  shows "scrape_loop scrape elapsed 0 urls [] ! k =
     (case scrape k (urls ! k) of
        Inr found \<Rightarrow> \<lparr>Website = urls ! k, Emails = join '', '' found, Time_Taken = Seconds (elapsed k)\<rparr>
      | Inl e \<Rightarrow> \<lparr>Website = urls ! k, Emails = ''Error scraping website'', Time_Taken = NA\<rparr>)"
  using assms by (simp add: scrape_loop_rows)

lemma scrape_loop_websites:
  "map Website (scrape_loop scrape elapsed 0 urls []) = urls"
proof (rule nth_equalityI)
  show "length (map Website (scrape_loop scrape elapsed 0 urls [])) = length urls"
    by (simp add: scrape_loop_length)
next
  fix k assume "k < length (map Website (scrape_loop scrape elapsed 0 urls []))"
  then have k: "k < length urls" by (simp add: scrape_loop_length)
  then have "map Website (scrape_loop scrape elapsed 0 urls []) ! k =
      Website (scrape_loop scrape elapsed 0 urls [] ! k)"
    by (simp add: scrape_loop_length)
  also have "\<dots> = urls ! k"
    unfolding scrape_loop_nth [OF k] by (simp split: sum.splits)
  finally show "map Website (scrape_loop scrape elapsed 0 urls []) ! k = urls ! k" .
qed

lemma fold_jobs_length:
  "length (fold (\<lambda>i futures. if i < length futures then futures[i := Some (job i (urls ! i))] else futures)
      completion futures) = length futures"
  by (induction completion arbitrary: futures) simp_all

lemma fold_jobs_nth:
  "k < length futures \<Longrightarrow>
   fold (\<lambda>i futures. if i < length futures then futures[i := Some (job i (urls ! i))] else futures)
      completion futures ! k =
     (if k \<in> set completion then Some (job k (urls ! k)) else futures ! k)"
proof (induction completion arbitrary: futures)
  case Nil
  then show ?case by simp
next
  case (Cons c completion)
  let ?f = "\<lambda>i futures. if i < length futures then futures[i := Some (job i (urls ! i))] else futures"
  have len: "k < length (?f c futures)" using Cons.prems by simp
  have "fold ?f (c # completion) futures ! k = fold ?f completion (?f c futures) ! k" by simp
  also have "\<dots> = (if k \<in> set completion then Some (job k (urls ! k)) else ?f c futures ! k)"
    using Cons.IH [OF len] .
  also have "\<dots> = (if k \<in> set (c # completion) then Some (job k (urls ! k)) else futures ! k)"
    using Cons.prems by (auto simp: nth_list_update)
  finally show ?case .
qed

lemma run_jobs_all:
  assumes "{0..<length urls} \<subseteq> set completion"
  shows "run_jobs job urls completion = map (\<lambda>i. Some (job i (urls ! i))) [0..<length urls]"
proof (rule nth_equalityI)
  show "length (run_jobs job urls completion) =
      length (map (\<lambda>i. Some (job i (urls ! i))) [0..<length urls])"
    by (simp add: run_jobs_def fold_jobs_length)
next
  fix k assume "k < length (run_jobs job urls completion)"
  then have k: "k < length urls" by (simp add: run_jobs_def fold_jobs_length)
  with assms have "k \<in> set completion" by auto
  with k show "run_jobs job urls completion ! k =
      map (\<lambda>i. Some (job i (urls ! i))) [0..<length urls] ! k"
    by (simp add: run_jobs_def fold_jobs_nth)
qed

lemma dict_set_fresh: "k \<notin> fst ` set d \<Longrightarrow> dict_set d k v = d @ [(k, v)]"
  by (induction d) auto

lemma collect_results_all:
  "distinct (map fst ps) \<Longrightarrow> fst ` set acc \<inter> fst ` set ps = {} \<Longrightarrow>
   collect_results (map (\<lambda>(u, r). (u, Some r)) ps) acc =
     Some (acc @ map (\<lambda>(u, r). (u, projr r)) (filter (\<lambda>(u, r). \<not> isl r) ps))"
proof (induction ps arbitrary: acc)
  case Nil
  then show ?case by simp
next
  case (Cons p ps)
  obtain u r where p: "p = (u, r)" by (cases p)
  from Cons.prems p have d: "distinct (map fst ps)" and u: "u \<notin> fst ` set ps"
    and a: "fst ` set acc \<inter> fst ` set ps = {}" and ua: "u \<notin> fst ` set acc"
    by auto
  show ?case
  proof (cases r)
    case (Inl e)
    with p Cons.IH [OF d a] show ?thesis by simp
  next
    case (Inr links)
    have "fst ` set (acc @ [(u, links)]) \<inter> fst ` set ps = {}"
      using a u by auto
    from Cons.IH [OF d this] p Inr ua show ?thesis
      by (simp add: dict_set_fresh)
  qed
qed

lemma process_urls_all:
  assumes "distinct urls" and "{0..<length urls} \<subseteq> set completion"
  shows "process_urls_concurrently job completion urls =
     Some (map (\<lambda>(u, r). (u, projr r)) (filter (\<lambda>(u, r). \<not> isl r)
       (zip urls (map (\<lambda>i. job i (urls ! i)) [0..<length urls]))))"
proof -
  let ?ps = "zip urls (map (\<lambda>i. job i (urls ! i)) [0..<length urls])"
  have z: "zip urls (map (\<lambda>i. Some (job i (urls ! i))) [0..<length urls]) =
      map (\<lambda>(u, r). (u, Some r)) ?ps"
    by (simp add: zip_map2 case_prod_unfold)
  have m: "map fst ?ps = urls" by simp
  have "collect_results (map (\<lambda>(u, r). (u, Some r)) ?ps) [] =
     Some ([] @ map (\<lambda>(u, r). (u, projr r)) (filter (\<lambda>(u, r). \<not> isl r) ?ps))"
    by (rule collect_results_all) (simp_all only: m assms(1), simp)
  then show ?thesis
    by (simp only: process_urls_concurrently_def run_jobs_all [OF assms(2)] z append_Nil)
qed

lemma process_urls_keys:
  assumes "distinct urls" and "process_urls_concurrently job completion urls = Some results"
    and "{0..<length urls} \<subseteq> set completion"
  shows "map fst results = map fst (filter (\<lambda>(u, r). \<not> isl r)
       (zip urls (map (\<lambda>i. job i (urls ! i)) [0..<length urls])))"
  using assms(2) unfolding process_urls_all [OF assms(1,3)]
  by (auto simp: case_prod_unfold comp_def)

lemma process_urls_no_failure:
  assumes "distinct urls" and "{0..<length urls} \<subseteq> set completion"
    and "\<forall>i<length urls. \<not> isl (job i (urls ! i))"
  shows "map_option (map fst) (process_urls_concurrently job completion urls) = Some urls"
proof -
  let ?ps = "zip urls (map (\<lambda>i. job i (urls ! i)) [0..<length urls])"
  have "\<forall>x\<in>set ?ps. \<not> isl (snd x)"
  proof
    fix x assume "x \<in> set ?ps"
    then obtain k where "k < length urls" "x = ?ps ! k"
      by (auto simp: in_set_conv_nth)
    with assms(3) show "\<not> isl (snd x)" by simp
  qed
  then have "filter (\<lambda>(u, r). \<not> isl r) ?ps = ?ps"
    by (intro filter_True) (auto simp: case_prod_unfold)
  moreover have "map fst (map (\<lambda>(u, r). (u, projr r)) ?ps) = urls"
    by (simp add: case_prod_unfold comp_def)
  ultimately show ?thesis
    unfolding process_urls_all [OF assms(1,2)] by simp
qed

text \<open>
  C4, amended: every job of a batch gets its own row, whatever happens to the others. A
  job whose scraper raises (the browser cannot be launched, or the crawler process raises)
  is recorded with the fixed text \<^verbatim>\<open>Error scraping website\<close> in place of the extracted values
  and \<^verbatim>\<open>N/A\<close> as its time; a failure inside the browser fetch is caught by
  scrape\_with\_selenium and the job is recorded as completed, with no extracted values
  and its elapsed time; a completed job is recorded with its joined values and its elapsed
  time.
\<close>

theorem scrape_multiple_websites_rows:
  assumes "rows = scrape_multiple_websites list_of browse run_scrapy_for_website elapsed urls use_selenium"
    and "i < length urls"
  shows "length rows = length urls \<and>
    (use_selenium \<and> browse i (urls ! i) = LaunchFailed e \<longrightarrow>
       rows ! i = \<lparr>Website = urls ! i, Emails = ''Error scraping website'', Time_Taken = NA\<rparr>) \<and>
    (use_selenium \<and> browse i (urls ! i) = GetFailed e \<longrightarrow>
       rows ! i = \<lparr>Website = urls ! i, Emails = [], Time_Taken = Seconds (elapsed i)\<rparr>) \<and>
    (use_selenium \<and> browse i (urls ! i) = PageSource html_content \<longrightarrow>
       rows ! i = \<lparr>Website = urls ! i, Emails = join '', '' (extract_emails list_of html_content),
                   Time_Taken = Seconds (elapsed i)\<rparr>) \<and>
    (\<not> use_selenium \<and> run_scrapy_for_website i (urls ! i) = Inl e \<longrightarrow>
       rows ! i = \<lparr>Website = urls ! i, Emails = ''Error scraping website'', Time_Taken = NA\<rparr>) \<and>
    (\<not> use_selenium \<and> run_scrapy_for_website i (urls ! i) = Inr found \<longrightarrow>
       rows ! i = \<lparr>Website = urls ! i, Emails = join '', '' found, Time_Taken = Seconds (elapsed i)\<rparr>)"
proof -
  let ?scrape = "\<lambda>i url. scrape_with_hybrid list_of (browse i) (run_scrapy_for_website i) url use_selenium"
  have len: "length rows = length urls"
    by (simp add: assms(1) scrape_multiple_websites_def scrape_loop_length)
  have row: "rows ! i =
     (case ?scrape i (urls ! i) of
        Inr found \<Rightarrow> \<lparr>Website = urls ! i, Emails = join '', '' found, Time_Taken = Seconds (elapsed i)\<rparr>
      | Inl e \<Rightarrow> \<lparr>Website = urls ! i, Emails = ''Error scraping website'', Time_Taken = NA\<rparr>)"
    unfolding assms(1) scrape_multiple_websites_def by (rule scrape_loop_nth [OF assms(2)])
  show ?thesis
  proof (intro conjI impI)
    show "length rows = length urls" by (rule len)
  next
    assume "use_selenium \<and> browse i (urls ! i) = LaunchFailed e"
    then show "rows ! i = \<lparr>Website = urls ! i, Emails = ''Error scraping website'', Time_Taken = NA\<rparr>"
      unfolding row by (simp add: scrape_with_hybrid_def scrape_with_selenium_def)
  next
    assume "use_selenium \<and> browse i (urls ! i) = GetFailed e"
    then show "rows ! i = \<lparr>Website = urls ! i, Emails = [], Time_Taken = Seconds (elapsed i)\<rparr>"
      unfolding row by (simp add: scrape_with_hybrid_def scrape_with_selenium_def)
  next
    assume "use_selenium \<and> browse i (urls ! i) = PageSource html_content"
    then show "rows ! i = \<lparr>Website = urls ! i, Emails = join '', '' (extract_emails list_of html_content),
                   Time_Taken = Seconds (elapsed i)\<rparr>"
      unfolding row by (simp add: scrape_with_hybrid_def scrape_with_selenium_def)
  next
    assume "\<not> use_selenium \<and> run_scrapy_for_website i (urls ! i) = Inl e"
    then show "rows ! i = \<lparr>Website = urls ! i, Emails = ''Error scraping website'', Time_Taken = NA\<rparr>"
      unfolding row by (simp add: scrape_with_hybrid_def)
  next
    assume "\<not> use_selenium \<and> run_scrapy_for_website i (urls ! i) = Inr found"
    then show "rows ! i = \<lparr>Website = urls ! i, Emails = join '', '' found, Time_Taken = Seconds (elapsed i)\<rparr>"
      unfolding row by (simp add: scrape_with_hybrid_def)
  qed
qed

theorem scrape_multiple_websites_rows_witness:
  "scrape_multiple_websites sorted_list_of_set (\<lambda>i url. PageSource [])
     (\<lambda>i url. if i = 1 then Inl (Exception ''reactor not restartable'')
               else Inr [''a@x.org'', ''b@y.org''])
     (\<lambda>i. 10 * i + 7) [''https://a.org/'', ''https://b.org/'', ''https://c.org/''] False =
     [\<lparr>Website = ''https://a.org/'', Emails = ''a@x.org, b@y.org'', Time_Taken = Seconds (7::nat)\<rparr>,
      \<lparr>Website = ''https://b.org/'', Emails = ''Error scraping website'', Time_Taken = NA\<rparr>,
      \<lparr>Website = ''https://c.org/'', Emails = ''a@x.org, b@y.org'', Time_Taken = Seconds 27\<rparr>] \<and>
   (1::nat) < length [''https://a.org/'', ''https://b.org/'', ''https://c.org/''] \<and>
   scrape_multiple_websites sorted_list_of_set (\<lambda>i url. PageSource [])
     (\<lambda>i url. if i = 1 then Inl (Exception ''reactor not restartable'')
               else Inr [''a@x.org'', ''b@y.org''])
     (\<lambda>i. 10 * i + 7) [''https://a.org/'', ''https://b.org/'', ''https://c.org/''] False ! 1 =
     \<lparr>Website = [''https://a.org/'', ''https://b.org/'', ''https://c.org/''] ! 1,
       Emails = ''Error scraping website'', Time_Taken = (NA :: nat time_taken)\<rparr>"
proof -
  let ?browse = "\<lambda>(i::nat) (url::string). PageSource []"
  let ?run = "\<lambda>(i::nat) (url::string). if i = 1 then Inl (Exception ''reactor not restartable'')
               else (Inr [''a@x.org'', ''b@y.org''] :: exn + string list)"
  let ?urls = "[''https://a.org/'', ''https://b.org/'', ''https://c.org/'']"
  let ?rows = "scrape_multiple_websites sorted_list_of_set ?browse ?run (\<lambda>i. 10 * i + 7) ?urls False"
  have 1: "?rows =
     [\<lparr>Website = ''https://a.org/'', Emails = ''a@x.org, b@y.org'', Time_Taken = Seconds (7::nat)\<rparr>,
      \<lparr>Website = ''https://b.org/'', Emails = ''Error scraping website'', Time_Taken = NA\<rparr>,
      \<lparr>Website = ''https://c.org/'', Emails = ''a@x.org, b@y.org'', Time_Taken = Seconds 27\<rparr>]"
    by code_simp
  have 2: "(1::nat) < length ?urls" by simp
  have 3: "\<not> False \<and> ?run 1 (?urls ! 1) = Inl (Exception ''reactor not restartable'')" by simp
  from scrape_multiple_websites_rows [OF refl 2, of sorted_list_of_set ?browse ?run "\<lambda>i. 10 * i + 7" False
      "Exception ''reactor not restartable''"] 3
  have 4: "?rows ! 1 = \<lparr>Website = ?urls ! 1, Emails = ''Error scraping website'',
      Time_Taken = (NA :: nat time_taken)\<rparr>"
    by blast
  from 1 2 4 show ?thesis by (intro conjI)
qed

text \<open>
  C4 as stated fails: the row of a job whose browser cannot be launched holds the fixed
  text and not the description of the error, and a job whose fetch times out inside the
  browser is recorded as completed, with a time and no values.
\<close>

theorem failure_text_is_fixed:
  "scrape_multiple_websites sorted_list_of_set
     (\<lambda>i url. if i = 0 then LaunchFailed (Exception ''cannot start Chrome'')
               else if i = 1 then GetFailed (Exception ''timeout'')
               else PageSource ''mail a@x.org'')
     (\<lambda>i url. Inr []) (\<lambda>i. 10 * i + 7)
     [''https://a.org/'', ''https://b.org/'', ''https://c.org/''] True =
     [\<lparr>Website = ''https://a.org/'', Emails = ''Error scraping website'', Time_Taken = NA\<rparr>,
      \<lparr>Website = ''https://b.org/'', Emails = [], Time_Taken = Seconds (17::nat)\<rparr>,
      \<lparr>Website = ''https://c.org/'', Emails = ''a@x.org'', Time_Taken = Seconds 27\<rparr>] \<and>
   ''Error scraping website'' \<noteq> ''cannot start Chrome''"
  by code_simp

text \<open>
  C8, amended: the table of the email scraper has one row for each seed URL, in the order
  in which the caller supplied them. In the outgoing-link tool, process\_urls\_concurrently
  on a list of distinct URLs returns one entry for each URL whose job returned, in the
  order of the list, whatever the order in which the jobs complete, as long as all complete;
  when no job raises the keys are the list itself. Its caller main passes the seeds through
  a set first, so the entries follow the order in which that set lists the distinct seeds.
\<close>

theorem rows_in_seed_order:
  "map Website (scrape_multiple_websites list_of browse run_scrapy_for_website elapsed urls use_selenium) = urls \<and>
   (distinct urls \<and> {0..<length urls} \<subseteq> set completion \<longrightarrow>
      process_urls_concurrently job completion urls =
        Some (map (\<lambda>(u, r). (u, projr r)) (filter (\<lambda>(u, r). \<not> isl r)
          (zip urls (map (\<lambda>i. job i (urls ! i)) [0..<length urls]))))) \<and>
   (distinct urls \<and> {0..<length urls} \<subseteq> set completion \<and>
    (\<forall>i<length urls. \<not> isl (job i (urls ! i))) \<longrightarrow>
      map_option (map fst) (process_urls_concurrently job completion urls) = Some urls) \<and>
   (set_iteration list_of \<and> {0..<length (list_of (set urls))} \<subseteq> set completion \<longrightarrow>
      main_results list_of job completion urls =
        Some (map (\<lambda>(u, r). (u, projr r)) (filter (\<lambda>(u, r). \<not> isl r)
          (zip (list_of (set urls))
             (map (\<lambda>i. job i (list_of (set urls) ! i)) [0..<length (list_of (set urls))])))))"
proof (intro conjI impI)
  show "map Website (scrape_multiple_websites list_of browse run_scrapy_for_website elapsed urls use_selenium) = urls"
    unfolding scrape_multiple_websites_def by (rule scrape_loop_websites)
next
  assume "distinct urls \<and> {0..<length urls} \<subseteq> set completion"
  then show "process_urls_concurrently job completion urls =
        Some (map (\<lambda>(u, r). (u, projr r)) (filter (\<lambda>(u, r). \<not> isl r)
          (zip urls (map (\<lambda>i. job i (urls ! i)) [0..<length urls]))))"
    using process_urls_all by blast
next
  assume "distinct urls \<and> {0..<length urls} \<subseteq> set completion \<and>
    (\<forall>i<length urls. \<not> isl (job i (urls ! i)))"
  then show "map_option (map fst) (process_urls_concurrently job completion urls) = Some urls"
    using process_urls_no_failure by blast
next
  assume a: "set_iteration list_of \<and> {0..<length (list_of (set urls))} \<subseteq> set completion"
  then have "distinct (list_of (set urls))"
    unfolding set_iteration_def by simp
  with a show "main_results list_of job completion urls =
        Some (map (\<lambda>(u, r). (u, projr r)) (filter (\<lambda>(u, r). \<not> isl r)
          (zip (list_of (set urls))
             (map (\<lambda>i. job i (list_of (set urls) ! i)) [0..<length (list_of (set urls))]))))"
    unfolding main_results_def using process_urls_all by blast
qed

theorem rows_in_seed_order_witness:
  "distinct [''https://b.org/'', ''https://a.org/''] \<and>
   {0..<length [''https://b.org/'', ''https://a.org/'']} \<subseteq> set [1, 0] \<and>
   process_urls_concurrently (\<lambda>i url. Inr [url @ ''out'']) [1, 0] [''https://b.org/'', ''https://a.org/''] =
     Some [(''https://b.org/'', [''https://b.org/out'']), (''https://a.org/'', [''https://a.org/out''])] \<and>
   map_option (map fst)
     (process_urls_concurrently (\<lambda>i url. Inr [url @ ''out'']) [1, 0] [''https://b.org/'', ''https://a.org/'']) =
     Some [''https://b.org/'', ''https://a.org/''] \<and>
   set_iteration (sorted_list_of_set :: string set \<Rightarrow> string list) \<and>
   main_results sorted_list_of_set (\<lambda>i url. Inr [url @ ''out'']) [1, 0] [''https://b.org/'', ''https://a.org/''] =
     Some [(''https://a.org/'', [''https://a.org/out'']), (''https://b.org/'', [''https://b.org/out''])] \<and>
   map Website (scrape_multiple_websites sorted_list_of_set (\<lambda>i url. PageSource ''mail a@x.org'')
       (\<lambda>i url. Inr []) (\<lambda>i. i) [''https://b.org/'', ''https://a.org/''] True) =
     [''https://b.org/'', ''https://a.org/'']"
proof -
  let ?urls = "[''https://b.org/'', ''https://a.org/'']"
  let ?job = "\<lambda>(i::nat) (url::string). (Inr [url @ ''out''] :: exn + string list)"
  let ?browse = "\<lambda>(i::nat) (url::string). PageSource ''mail a@x.org''"
  let ?run = "\<lambda>(i::nat) (url::string). (Inr [] :: exn + string list)"
  note t = rows_in_seed_order [of sorted_list_of_set ?browse ?run "\<lambda>i. i" ?urls True "[1, 0]" ?job]
  have 1: "distinct ?urls" by simp
  have 2: "{0..<length ?urls} \<subseteq> set [1, 0]" by code_simp
  have 3: "\<forall>i<length ?urls. \<not> isl (?job i (?urls ! i))" by simp
  have 4: "{0..<length (sorted_list_of_set (set ?urls))} \<subseteq> set [1, 0]" by code_simp
  have 5: "map (\<lambda>(u, r). (u, projr r)) (filter (\<lambda>(u, r). \<not> isl r)
          (zip ?urls (map (\<lambda>i. ?job i (?urls ! i)) [0..<length ?urls]))) =
     [(''https://b.org/'', [''https://b.org/out'']), (''https://a.org/'', [''https://a.org/out''])]"
    by code_simp
  have 6: "map (\<lambda>(u, r). (u, projr r)) (filter (\<lambda>(u, r). \<not> isl r)
          (zip (sorted_list_of_set (set ?urls))
             (map (\<lambda>i. ?job i (sorted_list_of_set (set ?urls) ! i))
                [0..<length (sorted_list_of_set (set ?urls))]))) =
     [(''https://a.org/'', [''https://a.org/out'']), (''https://b.org/'', [''https://b.org/out''])]"
    by code_simp
  from t 1 2 have "process_urls_concurrently ?job [1, 0] ?urls =
        Some (map (\<lambda>(u, r). (u, projr r)) (filter (\<lambda>(u, r). \<not> isl r)
          (zip ?urls (map (\<lambda>i. ?job i (?urls ! i)) [0..<length ?urls]))))"
    by blast
  then have 7: "process_urls_concurrently ?job [1, 0] ?urls =
     Some [(''https://b.org/'', [''https://b.org/out'']), (''https://a.org/'', [''https://a.org/out''])]"
    unfolding 5 .
  from t 1 2 3 have 8: "map_option (map fst) (process_urls_concurrently ?job [1, 0] ?urls) = Some ?urls"
    by blast
  from t set_iteration_sorted 4 have "main_results sorted_list_of_set ?job [1, 0] ?urls =
        Some (map (\<lambda>(u, r). (u, projr r)) (filter (\<lambda>(u, r). \<not> isl r)
          (zip (sorted_list_of_set (set ?urls))
             (map (\<lambda>i. ?job i (sorted_list_of_set (set ?urls) ! i))
                [0..<length (sorted_list_of_set (set ?urls))]))))"
    by blast
  then have 9: "main_results sorted_list_of_set ?job [1, 0] ?urls =
     Some [(''https://a.org/'', [''https://a.org/out'']), (''https://b.org/'', [''https://b.org/out''])]"
    unfolding 6 .
  from t have 10: "map Website (scrape_multiple_websites sorted_list_of_set ?browse ?run (\<lambda>i. i) ?urls True) = ?urls"
    by (elim conjE)
  from 1 2 7 8 set_iteration_sorted 9 10 show ?thesis by (intro conjI)
qed

text \<open>
  C8 as stated fails for the outgoing-link tool: the seeds \<^verbatim>\<open>https://b.org/\<close>,
  \<^verbatim>\<open>https://a.org/\<close>, \<^verbatim>\<open>https://b.org/\<close> go through a set, and the table has two entries,
  in the order of the set.
\<close>

theorem seeds_pass_through_a_set:
  "main_results sorted_list_of_set (\<lambda>i url. Inr [url @ ''out'']) [0, 1]
     [''https://b.org/'', ''https://a.org/'', ''https://b.org/''] =
     Some [(''https://a.org/'', [''https://a.org/out'']), (''https://b.org/'', [''https://b.org/out''])] \<and>
   map fst [(''https://a.org/'', [''https://a.org/out'']), (''https://b.org/'', [''https://b.org/out''])] \<noteq>
     [''https://b.org/'', ''https://a.org/'', ''https://b.org/'']"
  by code_simp

end
